theory Spec2Isabelle
  imports Main "HOL-Library.Word" "HOL-Library.Multiset"
begin

section \<open>Strings of the host language\<close>

text \<open>
  The program is TypeScript: a string is a sequence of UTF-16 code units, \<open>===\<close> on
  strings is equality of these sequences, and \<open>a < b\<close> on strings compares them
  code unit by code unit (a proper prefix is smaller).  A comparator returns a number,
  of which the sort only reads the sign; the numbers \<open>-1\<close>, \<open>0\<close>, \<open>1\<close> are
  LESS, EQUAL and GREATER.
\<close>

type_synonym code_unit = "16 word"
type_synonym jsstring = "code_unit list"

text \<open>String literals of the source with characters up to U+00FF, one code unit each.\<close>

definition lit :: "string \<Rightarrow> jsstring" where
  "lit s = map of_char s"

fun string_less :: "jsstring \<Rightarrow> jsstring \<Rightarrow> bool" where
  "string_less [] [] = False"
| "string_less [] (y # ys) = True"
| "string_less (x # xs) [] = False"
| "string_less (x # xs) (y # ys) = (if x = y then string_less xs ys else x < y)"

text \<open>
  \<open>s.indexOf(c)\<close> for a one-unit search string: the index of the first occurrence,
  or \<open>-1\<close>.
\<close>

fun indexOf :: "jsstring \<Rightarrow> code_unit \<Rightarrow> int" where
  "indexOf [] c = -1"
| "indexOf (x # xs) c =
     (if x = c then 0 else (let r = indexOf xs c in if r < 0 then -1 else r + 1))"

text \<open>
  \<open>s.substring(start, end)\<close>: both arguments are clamped to \<open>[0, s.length]\<close> and
  swapped when they are out of order.
\<close>

definition substring :: "jsstring \<Rightarrow> int \<Rightarrow> int \<Rightarrow> jsstring" where
  "substring s start finish =
     (let len = int (length s);
          intStart = min (max start 0) len;
          intEnd = min (max finish 0) len;
          lo = min intStart intEnd;
          hi = max intStart intEnd
      in take (nat (hi - lo)) (drop (nat lo) s))"

text \<open>
  \<open>Array.from(s)\<close> runs the string iterator, which yields code points: a high
  surrogate directly followed by a low surrogate is one element, every other code unit
  (a lone surrogate too) is an element of its own.
\<close>

definition is_high_surrogate :: "code_unit \<Rightarrow> bool" where
  "is_high_surrogate c = (0xD800 \<le> c \<and> c \<le> 0xDBFF)"

definition is_low_surrogate :: "code_unit \<Rightarrow> bool" where
  "is_low_surrogate c = (0xDC00 \<le> c \<and> c \<le> 0xDFFF)"

fun Array_from :: "jsstring \<Rightarrow> jsstring list" where
  "Array_from [] = []"
| "Array_from [c] = [[c]]"
| "Array_from (c # d # cs) =
     (if is_high_surrogate c \<and> is_low_surrogate d
      then [c, d] # Array_from cs
      else [c] # Array_from (d # cs))"

text \<open>
  The UTF-16 encoding of a sequence of Unicode scalar values (code points outside the
  surrogate range), which is what a line of well-formed text is.
\<close>

definition is_scalar_value :: "nat \<Rightarrow> bool" where
  "is_scalar_value n = (n < 0xD800 \<or> (0xE000 \<le> n \<and> n \<le> 0x10FFFF))"

definition encode_code_point :: "nat \<Rightarrow> jsstring" where
  "encode_code_point n =
     (if n < 0x10000 then [of_nat n]
      else [of_nat (0xD800 + (n - 0x10000) div 0x400),
            of_nat (0xDC00 + (n - 0x10000) mod 0x400)])"

definition utf16 :: "nat list \<Rightarrow> jsstring" where
  "utf16 cps = concat (map encode_code_point cps)"

subsection \<open>The regular expression of the key extractor\<close>

text \<open>
  \<open>line.match(/(.*)=/)\<close>.  The dot matches every code unit but the four line
  terminators.  \<open>match_dot_star_eq s\<close> matches the pattern at the start of \<open>s\<close> and
  returns the capture: the star is greedy, so the dot takes the next unit whenever the
  rest can still be matched, and only otherwise the star stops and \<open>=\<close> must be next.
  \<open>regexp_match\<close> tries the start positions from left to right, as an unanchored
  match does.
\<close>

definition is_line_terminator :: "code_unit \<Rightarrow> bool" where
  "is_line_terminator c = (c = 0x0A \<or> c = 0x0D \<or> c = 0x2028 \<or> c = 0x2029)"

fun match_dot_star_eq :: "jsstring \<Rightarrow> jsstring option" where
  "match_dot_star_eq [] = None"
| "match_dot_star_eq (c # cs) =
     (case (if is_line_terminator c then None else match_dot_star_eq cs) of
        Some capture \<Rightarrow> Some (c # capture)
      | None \<Rightarrow> if c = 0x3D then Some [] else None)"

fun regexp_match :: "jsstring \<Rightarrow> jsstring option" where
  "regexp_match [] = match_dot_star_eq []"
| "regexp_match (c # cs) =
     (case match_dot_star_eq (c # cs) of
        Some capture \<Rightarrow> Some capture
      | None \<Rightarrow> regexp_match cs)"

section \<open>Comparators and field extractors\<close>

text \<open>\<open>lines.sort(undefined)\<close> compares two strings with \<open><\<close>.\<close>

definition defaultCompare :: "jsstring \<Rightarrow> jsstring \<Rightarrow> int" where
  "defaultCompare a b = (if string_less a b then -1 else if string_less b a then 1 else 0)"

definition reverseCompare :: "jsstring \<Rightarrow> jsstring \<Rightarrow> int" where
  "reverseCompare a b = (if a = b then 0 else if string_less a b then 1 else -1)"

definition lineLengthCompare :: "jsstring \<Rightarrow> jsstring \<Rightarrow> int" where
  "lineLengthCompare a b =
     (let aLength = length (Array_from a);
          bLength = length (Array_from b)
      in if aLength = bLength then 0 else if aLength > bLength then 1 else -1)"

definition lineLengthReverseCompare :: "jsstring \<Rightarrow> jsstring \<Rightarrow> int" where
  "lineLengthReverseCompare a b = lineLengthCompare a b * -1"

text \<open>
  \<open>match.pop()\<close> is the last element of the match array, the capture group
  (\<open>popped\<close> stands for the source's \<open>last\<close>); the test \<open>!last\<close> holds for
  the empty string.
\<close>

definition getVariableCharacters :: "jsstring \<Rightarrow> jsstring" where
  "getVariableCharacters line =
     (case regexp_match line of
        None \<Rightarrow> line
      | Some popped \<Rightarrow> if popped = [] then line else popped)"

definition variableLengthCompare :: "jsstring \<Rightarrow> jsstring \<Rightarrow> int" where
  "variableLengthCompare a b =
     lineLengthCompare (getVariableCharacters a) (getVariableCharacters b)"

definition variableLengthReverseCompare :: "jsstring \<Rightarrow> jsstring \<Rightarrow> int" where
  "variableLengthReverseCompare a b = variableLengthCompare a b * -1"

definition timestampCompare :: "jsstring \<Rightarrow> jsstring \<Rightarrow> int" where
  "timestampCompare a b =
     (let firstIndex = indexOf a 0x3C;
          secondIndex = indexOf b 0x3C
      in if firstIndex < 0 \<or> secondIndex < 0 then 0
         else (let findFirstTimestamp = substring a firstIndex (firstIndex + 30);
                   findSecoundTimestamp = substring b secondIndex (secondIndex + 30)
               in if findFirstTimestamp = findSecoundTimestamp then 0
                  else if string_less findFirstTimestamp findSecoundTimestamp then -1 else 1))"

definition dateCompare :: "jsstring \<Rightarrow> jsstring \<Rightarrow> int" where
  "dateCompare a b =
     (let firstIndex = indexOf a 0x3C;
          secondIndex = indexOf b 0x3C
      in if firstIndex < 0 \<or> secondIndex < 0 then 0
         else (let findFirstDate = substring a firstIndex (firstIndex + 10);
                   findSecoundDate = substring b secondIndex (secondIndex + 10)
               in if findFirstDate = findSecoundDate then 0
                  else if string_less findFirstDate findSecoundDate then -1 else 1))"

text \<open>
  The window of the specification, for comparison with the windows the two comparators
  cut: the first \<open>n\<close> code points from the first \<open><\<close> of the line on.
\<close>

definition spec_code_point_window :: "nat \<Rightarrow> jsstring \<Rightarrow> jsstring" where
  "spec_code_point_window n line =
     concat (take n (Array_from (dropWhile (\<lambda>c. c \<noteq> 0x3C) line)))"

text \<open>
  \<open>caseInsensitiveCompare\<close> and \<open>naturalCompare\<close> hand both lines to the collation
  of the host's default locale (\<open>localeCompare\<close> and \<open>Intl.Collator\<close>).  What they
  return is fixed by the locale data of the host, which is no part of the program; they
  have no definition here.
\<close>

section \<open>Transformers\<close>

text \<open>
  \<open>lines.sort(comparefn)\<close> sorts the array in place and returns it.  The host's sort
  is stable.  With a comparator that is a consistent order every stable sort returns the
  same array, which sorting by insertion computes; \<open>Array_sort\<close> stands for the host's
  sort with such comparators only, as the default comparator, \<open>reverseCompare\<close> and
  the length comparators are.  \<open>timestampCompare\<close> and \<open>dateCompare\<close> are no
  consistent orders (a line without \<open><\<close> is EQUAL to every line), and with them the
  host fixes no result.
\<close>

type_synonym ArrayTransformer = "jsstring list \<Rightarrow> jsstring list"
type_synonym SortingAlgorithm = "jsstring \<Rightarrow> jsstring \<Rightarrow> int"

fun insert_sorted :: "SortingAlgorithm \<Rightarrow> jsstring \<Rightarrow> jsstring list \<Rightarrow> jsstring list" where
  "insert_sorted comparefn x [] = [x]"
| "insert_sorted comparefn x (y # ys) =
     (if comparefn x y \<le> 0 then x # y # ys else y # insert_sorted comparefn x ys)"

definition Array_sort :: "SortingAlgorithm \<Rightarrow> jsstring list \<Rightarrow> jsstring list" where
  "Array_sort comparefn xs = foldr (insert_sorted comparefn) xs []"

definition makeSorter :: "SortingAlgorithm option \<Rightarrow> ArrayTransformer" where
  "makeSorter algorithm lines =
     Array_sort (case algorithm of None \<Rightarrow> defaultCompare | Some f \<Rightarrow> f) lines"

text \<open>
  \<open>Array.from(new Set(lines))\<close>: a set keeps its elements in the order of their first
  insertion, and adding an element it already holds changes nothing.
\<close>

definition Set_add :: "jsstring list \<Rightarrow> jsstring \<Rightarrow> jsstring list" where
  "Set_add s x = (if x \<in> set s then s else s @ [x])"

definition removeDuplicates :: ArrayTransformer where
  "removeDuplicates lines = fold (\<lambda>x s. Set_add s x) lines []"

text \<open>
  The index the shuffle draws in the iteration with index \<open>i\<close>, the source's
  \<open>Math.floor(Math.random() * (i + 1))\<close>, is the host's choice and a parameter here:
  \<open>draw i\<close>.  Every index is visited once, so a function of the index stands for any
  sequence of draws.  The destructuring assignment reads both elements before it writes
  them.  A draw above \<open>i\<close> is outside what is modelled.
\<close>

fun shuffle_loop :: "(nat \<Rightarrow> nat) \<Rightarrow> nat \<Rightarrow> jsstring list \<Rightarrow> jsstring list" where
  "shuffle_loop draw 0 lines = lines"
| "shuffle_loop draw (Suc n) lines =
     (let i = Suc n;
          rand = draw i
      in shuffle_loop draw n (lines[i := lines ! rand, rand := lines ! i]))"

definition shuffleSorter :: "(nat \<Rightarrow> nat) \<Rightarrow> ArrayTransformer" where
  "shuffleSorter draw lines = shuffle_loop draw (length lines - 1) lines"

text \<open>
  The entries of \<open>transformerSequences\<close> whose steps are defined above: all but the
  two case-insensitive ones and the natural one, which sort with the host's collation,
  and the two that sort with \<open>timestampCompare\<close> and \<open>dateCompare\<close>.
\<close>

definition transformerSequences_sortNormal :: "ArrayTransformer list" where
  "transformerSequences_sortNormal = [makeSorter None]"

definition transformerSequences_sortUnique :: "ArrayTransformer list" where
  "transformerSequences_sortUnique = [makeSorter None, removeDuplicates]"

definition transformerSequences_sortReverse :: "ArrayTransformer list" where
  "transformerSequences_sortReverse = [makeSorter (Some reverseCompare)]"

definition transformerSequences_sortLineLength :: "ArrayTransformer list" where
  "transformerSequences_sortLineLength = [makeSorter (Some lineLengthCompare)]"

definition transformerSequences_sortLineLengthReverse :: "ArrayTransformer list" where
  "transformerSequences_sortLineLengthReverse = [makeSorter (Some lineLengthReverseCompare)]"

definition transformerSequences_sortVariableLength :: "ArrayTransformer list" where
  "transformerSequences_sortVariableLength = [makeSorter (Some variableLengthCompare)]"

definition transformerSequences_sortVariableLengthReverse :: "ArrayTransformer list" where
  "transformerSequences_sortVariableLengthReverse =
     [makeSorter (Some variableLengthReverseCompare)]"

definition transformerSequences_sortShuffle :: "(nat \<Rightarrow> nat) \<Rightarrow> ArrayTransformer list" where
  "transformerSequences_sortShuffle draw = [shuffleSorter draw]"

definition transformerSequences_removeDuplicateLines :: "ArrayTransformer list" where
  "transformerSequences_removeDuplicateLines = [removeDuplicates]"

section \<open>The editor\<close>

text \<open>
  The host's text document is its lines, at least one: \<open>lineCount\<close> is their
  number and \<open>lineAt(i).text\<close> the line with index \<open>i\<close>, which throws when there
  is no such line.  No line holds the line feed.
\<close>

type_synonym document = "jsstring list"

datatype fault = IllegalLine

definition lineAt :: "document \<Rightarrow> nat \<Rightarrow> fault + jsstring" where
  "lineAt doc i = (if i < length doc then Inr (doc ! i) else Inl IllegalLine)"

text \<open>
  \<open>lines.join('\n')\<close>, and the document as one text: its lines joined by the line feed.
  The offset of a position is the number of code units before it in this text.
\<close>

fun Array_join :: "jsstring list \<Rightarrow> jsstring" where
  "Array_join [] = []"
| "Array_join [x] = x"
| "Array_join (x # y # ys) = x @ 0x0A # Array_join (y # ys)"

definition getText :: "document \<Rightarrow> jsstring" where
  "getText doc = Array_join doc"

definition offsetAt :: "document \<Rightarrow> nat \<Rightarrow> nat \<Rightarrow> nat" where
  "offsetAt doc l c = sum_list (map (\<lambda>t. length t + 1) (take l doc)) + c"

text \<open>
  \<open>editBuilder.replace(range, text)\<close> puts \<open>text\<close> in the place of the code units
  between the two positions of the range (the range orders them); the lines of the
  document after the edit are the resulting text split at every line feed.
\<close>

fun split_lines :: "jsstring \<Rightarrow> jsstring list" where
  "split_lines [] = [[]]"
| "split_lines (c # cs) =
     (if c = 0x0A then [] # split_lines cs
      else (case split_lines cs of l # ls \<Rightarrow> (c # l) # ls | [] \<Rightarrow> [[c]]))"

definition editBuilder_replace ::
    "document \<Rightarrow> nat \<Rightarrow> nat \<Rightarrow> nat \<Rightarrow> nat \<Rightarrow> jsstring \<Rightarrow> document" where
  "editBuilder_replace doc startLine startCharacter endLine endCharacter text =
     (let a = offsetAt doc startLine startCharacter;
          b = offsetAt doc endLine endCharacter;
          t = getText doc
      in split_lines (take (min a b) t @ text @ drop (max a b) t))"

text \<open>
  \<open>removeBlanks\<close> deletes in place every line that \<open>trim()\<close> empties: the loop stays
  at the same index after a \<open>splice\<close>.  \<open>trim()\<close> removes white space and line
  terminators at both ends.
\<close>

definition is_white_space :: "code_unit \<Rightarrow> bool" where
  "is_white_space c =
     (c = 0x09 \<or> c = 0x0B \<or> c = 0x0C \<or> c = 0x20 \<or> c = 0xA0 \<or> c = 0x1680
      \<or> (0x2000 \<le> c \<and> c \<le> 0x200A) \<or> c = 0x202F \<or> c = 0x205F \<or> c = 0x3000
      \<or> c = 0xFEFF \<or> is_line_terminator c)"

definition trim :: "jsstring \<Rightarrow> jsstring" where
  "trim s = rev (dropWhile is_white_space (rev (dropWhile is_white_space s)))"

function removeBlanks_loop :: "nat \<Rightarrow> jsstring list \<Rightarrow> jsstring list" where
  "removeBlanks_loop i lines =
     (if i < length lines
      then (if trim (lines ! i) = []
            then removeBlanks_loop i (take i lines @ drop (Suc i) lines)
            else removeBlanks_loop (Suc i) lines)
      else lines)"
  by pat_completeness auto
termination
  by (relation "measure (\<lambda>(i, lines). length lines - i)") auto

declare removeBlanks_loop.simps [simp del]

definition removeBlanks :: "jsstring list \<Rightarrow> jsstring list" where
  "removeBlanks lines = removeBlanks_loop 0 lines"

text \<open>The loop of \<open>sortLines\<close> that collects the lines of the span.\<close>

function read_lines :: "document \<Rightarrow> nat \<Rightarrow> nat \<Rightarrow> jsstring list \<Rightarrow> fault + jsstring list" where
  "read_lines doc i endLine lines =
     (if i \<le> endLine
      then (case lineAt doc i of
              Inl e \<Rightarrow> Inl e
            | Inr t \<Rightarrow> read_lines doc (Suc i) endLine (lines @ [t]))
      else Inr lines)"
  by pat_completeness auto
termination
  by (relation "measure (\<lambda>(doc, i, endLine, lines). Suc endLine - i)") auto

declare read_lines.simps [simp del]

text \<open>
  The two settings of the workspace configuration; a field is true when the value read
  is \<open>true\<close> itself, which is what the source tests with \<open>=== true\<close>.
\<close>

record configuration =
  sortEntireFile :: bool
  filterBlankLines :: bool

definition sortLines ::
    "configuration \<Rightarrow> document \<Rightarrow> nat \<Rightarrow> nat \<Rightarrow> ArrayTransformer list \<Rightarrow> fault + document" where
  "sortLines cfg doc startLine endLine transformers =
     (case read_lines doc startLine endLine [] of
        Inl e \<Rightarrow> Inl e
      | Inr lines \<Rightarrow>
          (let lines1 = (if filterBlankLines cfg then removeBlanks lines else lines);
               lines2 = fold (\<lambda>transform currentLines. transform currentLines) transformers lines1
           in (case lineAt doc endLine of
                 Inl e \<Rightarrow> Inl e
               | Inr t \<Rightarrow>
                   Inr (editBuilder_replace doc startLine 0 endLine (length t)
                          (Array_join lines2)))))"

text \<open>
  The selection of the editor, from its start position to its end position; it is
  empty when the two are the same position and a single line when they are on the
  same line.
\<close>

record selection =
  start_line :: nat
  start_character :: nat
  end_line :: nat
  end_character :: nat

definition isEmpty :: "selection \<Rightarrow> bool" where
  "isEmpty s = (start_line s = end_line s \<and> start_character s = end_character s)"

definition isSingleLine :: "selection \<Rightarrow> bool" where
  "isSingleLine s = (start_line s = end_line s)"

record textEditor =
  document :: document
  selection :: selection

text \<open>
  \<open>sortActiveSelection\<close> returns the messages it showed with
  \<open>showErrorMessage\<close>, in order, and what it returned: \<open>None\<close> for
  \<open>undefined\<close> (nothing is written), or the outcome of \<open>sortLines\<close>, the document
  after the edit.
\<close>

definition msg_no_editor :: string where
  "msg_no_editor = ''The source file is too large,'' @ [CHR 0x0A] @ ''Try with a smaller one.''"

definition msg_no_selection :: string where
  "msg_no_selection = ''You probably did not select any text to be sorted''"

definition msg_single_line :: string where
  "msg_single_line = ''Will not work with single line!''"

definition sortActiveSelection ::
    "configuration \<Rightarrow> textEditor option \<Rightarrow> ArrayTransformer list
      \<Rightarrow> string list \<times> (fault + document) option" where
  "sortActiveSelection cfg activeTextEditor transformers =
     (case activeTextEditor of
        None \<Rightarrow> ([msg_no_editor], None)
      | Some ed \<Rightarrow>
          (let sel = selection ed;
               shown = (if isEmpty sel then [msg_no_selection] else [])
           in if isEmpty sel \<and> sortEntireFile cfg
              then (shown, Some (sortLines cfg (document ed) 0 (length (document ed) - 1)
                                   transformers))
              else if isSingleLine sel
              then (shown @ [msg_single_line], None)
              else (shown, Some (sortLines cfg (document ed) (start_line sel) (end_line sel)
                                   transformers))))"

section \<open>Properties of the string operations\<close>

lemma string_less_irrefl: "\<not> string_less a a"
  by (induction a) auto

lemma string_less_total: "a \<noteq> b \<Longrightarrow> string_less a b \<or> string_less b a"
  by (induction a b rule: string_less.induct) auto

lemma string_less_asym: "string_less a b \<Longrightarrow> \<not> string_less b a"
  by (induction a b rule: string_less.induct) (auto split: if_splits)

lemma string_less_trans: "string_less a b \<Longrightarrow> string_less b c \<Longrightarrow> string_less a c"
proof (induction a b arbitrary: c rule: string_less.induct)
  case (2 y ys)
  then show ?case by (cases c) auto
next
  case (4 x xs y ys)
  then show ?case by (cases c) (auto split: if_splits)
qed auto

lemma string_less_lexord: "string_less a b \<longleftrightarrow> (a, b) \<in> lexord {(x, y). x < y}"
  by (induction a b rule: string_less.induct) auto

section \<open>The variable-key extractor\<close>

lemma match_dot_star_eq_no_eq: "0x3D \<notin> set s \<Longrightarrow> match_dot_star_eq s = None"
  by (induction s) auto

lemma regexp_match_no_eq: "0x3D \<notin> set s \<Longrightarrow> regexp_match s = None"
  by (induction s) (auto simp: match_dot_star_eq_no_eq)

lemma match_dot_star_eq_last:
  "0x3D \<notin> set suf \<Longrightarrow> \<forall>c\<in>set pre. \<not> is_line_terminator c
   \<Longrightarrow> match_dot_star_eq (pre @ 0x3D # suf) = Some pre"
  by (induction pre) (auto simp: match_dot_star_eq_no_eq is_line_terminator_def)

lemma regexp_match_last:
  "0x3D \<notin> set suf \<Longrightarrow> \<forall>c\<in>set pre. \<not> is_line_terminator c
   \<Longrightarrow> regexp_match (pre @ 0x3D # suf) = Some pre"
  using match_dot_star_eq_last [of suf pre] by (cases pre) auto

text \<open>
  Claim C1, as the code has it.  A line without \<open>=\<close> is its own key.  A line
  \<open>pre = suf\<close> whose last \<open>=\<close> is the one shown (and whose part before it holds no
  line terminator, as a line of a document does not) has the key \<open>pre\<close>, the substring
  strictly before the last \<open>=\<close>, when \<open>pre\<close> is not empty; when nothing precedes the
  last \<open>=\<close> the key is the entire line.  In particular the keys of \<open>FOO=bar\<close>,
  \<open>A=B=C\<close> and \<open>NOEQUALS\<close> are \<open>FOO\<close>, \<open>A=B\<close> and \<open>NOEQUALS\<close>.
\<close>

theorem getVariableCharacters_key:
  "(0x3D \<notin> set line \<longrightarrow> getVariableCharacters line = line)
   \<and> (\<forall>pre suf. line = pre @ 0x3D # suf \<and> 0x3D \<notin> set suf
          \<and> (\<forall>c\<in>set pre. \<not> is_line_terminator c)
        \<longrightarrow> getVariableCharacters line = (if pre = [] then line else pre))
   \<and> getVariableCharacters (lit ''FOO=bar'') = lit ''FOO''
   \<and> getVariableCharacters (lit ''A=B=C'') = lit ''A=B''
   \<and> getVariableCharacters (lit ''NOEQUALS'') = lit ''NOEQUALS''"
  by (auto simp: getVariableCharacters_def regexp_match_no_eq regexp_match_last lit_def
      is_line_terminator_def)

theorem getVariableCharacters_key_witness:
  "getVariableCharacters (lit ''PATH=/bin:/usr/bin'') = lit ''PATH''
   \<and> getVariableCharacters (lit ''=bar'') = lit ''=bar''
   \<and> getVariableCharacters (lit ''plain'') = lit ''plain''"
proof -
  have 1: "lit ''PATH=/bin:/usr/bin'' = lit ''PATH'' @ 0x3D # lit ''/bin:/usr/bin''
      \<and> 0x3D \<notin> set (lit ''/bin:/usr/bin'')
      \<and> (\<forall>c\<in>set (lit ''PATH''). \<not> is_line_terminator c)"
    by (simp add: lit_def is_line_terminator_def)
  have 2: "lit ''=bar'' = [] @ 0x3D # lit ''bar'' \<and> 0x3D \<notin> set (lit ''bar'')
      \<and> (\<forall>c\<in>set ([]::jsstring). \<not> is_line_terminator c)"
    by (simp add: lit_def)
  have 3: "0x3D \<notin> set (lit ''plain'')"
    by (simp add: lit_def)
  from getVariableCharacters_key [of "lit ''PATH=/bin:/usr/bin''"] 1
  have a: "getVariableCharacters (lit ''PATH=/bin:/usr/bin'')
      = (if lit ''PATH'' = [] then lit ''PATH=/bin:/usr/bin'' else lit ''PATH'')"
    by blast
  from getVariableCharacters_key [of "lit ''=bar''"] 2
  have b: "getVariableCharacters (lit ''=bar'')
      = (if ([]::jsstring) = [] then lit ''=bar'' else [])"
    by blast
  from getVariableCharacters_key [of "lit ''plain''"] 3
  have c: "getVariableCharacters (lit ''plain'') = lit ''plain''"
    by blast
  from a b c show ?thesis by (simp add: lit_def)
qed

text \<open>
  Claim C1 as it is stated fails on a line that starts with its only \<open>=\<close>: the
  substring strictly before the last \<open>=\<close> of \<open>=bar\<close> is empty, and the extractor
  returns the whole line.  It fails also on a line with a line separator before its
  last \<open>=\<close>, where the dot cannot cross the separator: the key of \<open>a\<close>, U+2028,
  \<open>b=c\<close> is \<open>b\<close>.
\<close>

theorem getVariableCharacters_empty_prefix_counterexample:
  "lit ''=bar'' = [] @ 0x3D # lit ''bar''
   \<and> 0x3D \<notin> set (lit ''bar'')
   \<and> getVariableCharacters (lit ''=bar'') \<noteq> []
   \<and> getVariableCharacters (lit ''=bar'') = lit ''=bar''
   \<and> getVariableCharacters [0x61, 0x2028, 0x62, 0x3D, 0x63] = [0x62]"
  by (simp add: getVariableCharacters_def lit_def is_line_terminator_def)

section \<open>The descending comparator\<close>

text \<open>
  Claim C5.  The descending comparator returns EQUAL exactly when the two lines are
  equal, as the ascending one does; on different lines it is the negation of the
  ascending comparator: GREATER when \<open>a < b\<close>, LESS when \<open>a > b\<close>.  The order is the
  lexicographic order of the code units.
\<close>

theorem reverseCompare_inverts_ascending:
  "(reverseCompare a b = 0 \<longleftrightarrow> a = b)
   \<and> (defaultCompare a b = 0 \<longleftrightarrow> a = b)
   \<and> (a \<noteq> b \<longrightarrow> reverseCompare a b = - defaultCompare a b)
   \<and> (string_less a b \<longrightarrow> reverseCompare a b = 1)
   \<and> (string_less b a \<longrightarrow> reverseCompare a b = -1)
   \<and> (string_less a b \<longleftrightarrow> (a, b) \<in> lexord {(x, y). x < y})"
  using string_less_total [of a b] string_less_asym [of a b] string_less_irrefl [of a]
    string_less_lexord [of a b]
  by (auto simp: reverseCompare_def defaultCompare_def)

theorem reverseCompare_inverts_ascending_witness:
  "lit ''apple'' \<noteq> lit ''banana''
   \<and> string_less (lit ''apple'') (lit ''banana'')
   \<and> reverseCompare (lit ''apple'') (lit ''banana'') = 1
   \<and> defaultCompare (lit ''apple'') (lit ''banana'') = -1
   \<and> reverseCompare (lit ''banana'') (lit ''apple'') = -1
   \<and> reverseCompare (lit ''apple'') (lit ''apple'') = 0"
  using reverseCompare_inverts_ascending [of "lit ''apple''" "lit ''banana''"]
    reverseCompare_inverts_ascending [of "lit ''banana''" "lit ''apple''"]
    reverseCompare_inverts_ascending [of "lit ''apple''" "lit ''apple''"]
  by (simp add: lit_def)

section \<open>The length comparators\<close>

lemma Array_from_single:
  "\<not> is_high_surrogate c \<Longrightarrow> Array_from (c # cs) = [c] # Array_from cs"
  by (cases cs) auto

lemma unat_code_unit: "k < 0x10000 \<Longrightarrow> unat (of_nat k :: code_unit) = k"
  by (simp add: unat_of_nat)

lemma bmp_not_high:
  assumes "is_scalar_value n" "n < 0x10000"
  shows "\<not> is_high_surrogate (of_nat n)"
proof -
  have "unat (of_nat n :: code_unit) = n"
    using assms(2) by (simp add: unat_of_nat)
  then show ?thesis
    using assms(1) by (auto simp: is_high_surrogate_def is_scalar_value_def word_le_nat_alt)
qed

lemma astral_high:
  assumes "is_scalar_value n" "\<not> n < 0x10000"
  shows "is_high_surrogate (of_nat (0xD800 + (n - 0x10000) div 0x400))"
proof -
  have "(n - 0x10000) div 0x400 < 0x400"
    using assms by (auto simp: is_scalar_value_def)
  then have "unat (of_nat (0xD800 + (n - 0x10000) div 0x400) :: code_unit) = 0xD800 + (n - 0x10000) div 0x400"
    by (intro unat_code_unit) simp
  then show ?thesis
    using \<open>(n - 0x10000) div 0x400 < 0x400\<close>
    by (auto simp: is_high_surrogate_def word_le_nat_alt)
qed

lemma astral_low:
  "is_low_surrogate (of_nat (0xDC00 + m mod 0x400))"
proof -
  have "m mod 0x400 < 0x400" by simp
  then have "unat (of_nat (0xDC00 + m mod 0x400) :: code_unit) = 0xDC00 + m mod 0x400"
    by (intro unat_code_unit) simp
  then show ?thesis
    using \<open>m mod 0x400 < 0x400\<close>
    by (auto simp: is_low_surrogate_def word_le_nat_alt)
qed

lemma Array_from_encode:
  "is_scalar_value n \<Longrightarrow> Array_from (encode_code_point n @ s) = encode_code_point n # Array_from s"
  using bmp_not_high [of n] astral_high [of n] astral_low [of "n - 0x10000"]
  by (simp add: encode_code_point_def Array_from_single del: of_nat_add of_nat_numeral)

lemma Array_from_utf16:
  "\<forall>n\<in>set cps. is_scalar_value n \<Longrightarrow> Array_from (utf16 cps) = map encode_code_point cps"
  by (induction cps) (simp_all add: utf16_def Array_from_encode)

text \<open>
  Claim C6.  The length comparator returns EQUAL exactly when the two lines have the
  same number of code points, as the string iterator counts them; on the UTF-16 form
  of two sequences of Unicode scalar values it compares the numbers of scalar values,
  whatever the numbers of code units are.  The letter \<open>e\<close> followed by the combining
  acute accent U+0301 has length 2.  The descending length comparator is the negation
  of the ascending one on every pair.
\<close>

theorem lineLengthCompare_code_points:
  "(lineLengthCompare a b = 0 \<longleftrightarrow> length (Array_from a) = length (Array_from b))
   \<and> (\<forall>xs ys. (\<forall>n\<in>set xs. is_scalar_value n) \<and> (\<forall>n\<in>set ys. is_scalar_value n)
        \<longrightarrow> lineLengthCompare (utf16 xs) (utf16 ys)
            = (if length xs = length ys then 0 else if length xs > length ys then 1 else -1))
   \<and> length (Array_from [0x65, 0x301]) = 2
   \<and> lineLengthReverseCompare a b = - lineLengthCompare a b"
  by (simp add: lineLengthCompare_def lineLengthReverseCompare_def Array_from_utf16
      is_high_surrogate_def Let_def)

theorem lineLengthCompare_code_points_witness:
  "utf16 [0x1F600, 0x61] = [0xD83D, 0xDE00, 0x61]
   \<and> lineLengthCompare [0xD83D, 0xDE00, 0x61] (utf16 [0x62, 0x63, 0x64]) = -1
   \<and> lineLengthReverseCompare [0xD83D, 0xDE00, 0x61] (utf16 [0x62, 0x63, 0x64]) = 1"
proof -
  have h: "(\<forall>n\<in>set [0x1F600, 0x61]. is_scalar_value n)
      \<and> (\<forall>n\<in>set [0x62, 0x63, 0x64]. is_scalar_value n)"
    by (simp add: is_scalar_value_def)
  have e: "utf16 [0x1F600, 0x61] = [0xD83D, 0xDE00, 0x61]"
    by (simp add: utf16_def encode_code_point_def)
  from lineLengthCompare_code_points [of "utf16 [0x1F600, 0x61]" "utf16 [0x62, 0x63, 0x64]"] h
  have "lineLengthCompare (utf16 [0x1F600, 0x61]) (utf16 [0x62, 0x63, 0x64]) = -1
      \<and> lineLengthReverseCompare (utf16 [0x1F600, 0x61]) (utf16 [0x62, 0x63, 0x64])
          = - lineLengthCompare (utf16 [0x1F600, 0x61]) (utf16 [0x62, 0x63, 0x64])"
    by (simp del: set_simps)
  with e show ?thesis by simp
qed

section \<open>The timestamp and date comparators\<close>

lemma indexOf_absent: "indexOf s c < 0 \<longleftrightarrow> c \<notin> set s"
  by (induction s) (auto simp: Let_def)

lemma indexOf_present:
  "c \<in> set s \<Longrightarrow> indexOf s c = int (length (takeWhile (\<lambda>x. x \<noteq> c) s))"
proof (induction s)
  case Nil
  then show ?case by simp
next
  case (Cons x xs)
  show ?case
  proof (cases "x = c")
    case True
    then show ?thesis by simp
  next
    case False
    with Cons.prems have "c \<in> set xs" by simp
    with Cons.IH indexOf_absent [of xs c] False show ?thesis
      by (simp add: Let_def)
  qed
qed

lemma substring_window:
  "substring s (int i) (int i + int n) = take n (drop i s)"
  by (cases "i \<le> length s") (auto simp: substring_def Let_def min_def max_def)

lemma drop_takeWhile_length: "drop (length (takeWhile P s)) s = dropWhile P s"
  by (induction s) auto

lemma window_at_first_lt:
  assumes "0x3C \<in> set s"
  shows "substring s (indexOf s 0x3C) (indexOf s 0x3C + int n)
         = take n (dropWhile (\<lambda>c. c \<noteq> 0x3C) s)"
  using substring_window [of s "length (takeWhile (\<lambda>x. x \<noteq> 0x3C) s)" n]
  by (simp add: indexOf_present [OF assms] drop_takeWhile_length)

lemma string_less_take_mono:
  "m \<le> n \<Longrightarrow> string_less (take m x) (take m y) \<Longrightarrow> string_less (take n x) (take n y)"
proof (induction m arbitrary: n x y)
  case 0
  then show ?case by simp
next
  case (Suc m)
  then obtain n' where n: "n = Suc n'" "m \<le> n'"
    by (cases n) auto
  show ?case
  proof (cases x)
    case Nil
    with Suc.prems n show ?thesis by (cases y) auto
  next
    case (Cons a xs)
    note x = this
    show ?thesis
    proof (cases y)
      case Nil
      with Suc.prems x show ?thesis by simp
    next
      case (Cons b ys)
      with Suc.prems x n Suc.IH [of n' xs ys] show ?thesis
        by (auto split: if_splits)
    qed
  qed
qed

text \<open>
  Claim C4, as the code has it.  Both comparators return EQUAL whenever one of the
  lines has no \<open><\<close>.  Otherwise the timestamp comparator compares, in the
  lexicographic order of the code units, the windows of 30 UTF-16 code units that
  start at the first \<open><\<close> of each line (shorter when the line ends before), and the
  date comparator does the same with windows of 10 code units.
\<close>

theorem timestampCompare_window:
  "timestampCompare a b =
     (if 0x3C \<notin> set a \<or> 0x3C \<notin> set b then 0
      else if take 30 (dropWhile (\<lambda>c. c \<noteq> 0x3C) a) = take 30 (dropWhile (\<lambda>c. c \<noteq> 0x3C) b) then 0
      else if (take 30 (dropWhile (\<lambda>c. c \<noteq> 0x3C) a), take 30 (dropWhile (\<lambda>c. c \<noteq> 0x3C) b))
              \<in> lexord {(x, y). x < y} then -1 else 1)
   \<and> dateCompare a b =
     (if 0x3C \<notin> set a \<or> 0x3C \<notin> set b then 0
      else if take 10 (dropWhile (\<lambda>c. c \<noteq> 0x3C) a) = take 10 (dropWhile (\<lambda>c. c \<noteq> 0x3C) b) then 0
      else if (take 10 (dropWhile (\<lambda>c. c \<noteq> 0x3C) a), take 10 (dropWhile (\<lambda>c. c \<noteq> 0x3C) b))
              \<in> lexord {(x, y). x < y} then -1 else 1)"
proof (cases "0x3C \<notin> set a \<or> 0x3C \<notin> set b")
  case True
  then show ?thesis
    using indexOf_absent [of a "0x3C"] indexOf_absent [of b "0x3C"]
    by (auto simp: timestampCompare_def dateCompare_def Let_def)
next
  case False
  then have a: "0x3C \<in> set a" and b: "0x3C \<in> set b" by auto
  have ia: "\<not> indexOf a 0x3C < 0" and ib: "\<not> indexOf b 0x3C < 0"
    using a b by (simp_all add: indexOf_absent)
  show ?thesis
    using window_at_first_lt [OF a, of 30] window_at_first_lt [OF b, of 30]
      window_at_first_lt [OF a, of 10] window_at_first_lt [OF b, of 10] a b ia ib
    by (simp add: timestampCompare_def dateCompare_def Let_def string_less_lexord)
qed

theorem timestampCompare_window_witness:
  "timestampCompare (lit ''x<2024-01-01T00:00:00Z> msg1'') (lit ''x<2024-01-02T00:00:00Z> msg2'') = -1
   \<and> dateCompare (lit ''x<2024-01-01T00:00:00Z> msg1'') (lit ''x<2024-01-02T00:00:00Z> msg2'') = 0
   \<and> timestampCompare (lit ''no timestamp'') (lit ''x<2024-01-02T00:00:00Z> msg2'') = 0"
  using timestampCompare_window [of "lit ''x<2024-01-01T00:00:00Z> msg1''" "lit ''x<2024-01-02T00:00:00Z> msg2''"]
    timestampCompare_window [of "lit ''no timestamp''" "lit ''x<2024-01-02T00:00:00Z> msg2''"]
  by (simp add: lit_def)

text \<open>
  Claim C4 as it is stated, with windows of code points, fails on lines with
  characters outside the Basic Multilingual Plane.  The first two lines below are
  \<open><\<close>, five times U+1F600 and a last letter, \<open>a\<close> in one and \<open>b\<close> in the
  other: seven code points, twelve code units.  Their windows of 10 code points are the
  whole lines and differ, but the date comparator cuts after 10 code units, in the
  middle of the fifth U+1F600, finds the same window twice and returns EQUAL.  The
  last two lines, with fifteen times U+1F600, do the same to the timestamp comparator
  and its window of 30.
\<close>

theorem code_point_window_counterexample:
  "dateCompare
       [0x3C, 0xD83D, 0xDE00, 0xD83D, 0xDE00, 0xD83D, 0xDE00, 0xD83D, 0xDE00,
        0xD83D, 0xDE00, 0x61]
       [0x3C, 0xD83D, 0xDE00, 0xD83D, 0xDE00, 0xD83D, 0xDE00, 0xD83D, 0xDE00,
        0xD83D, 0xDE00, 0x62]
     = 0
   \<and> spec_code_point_window 10
       [0x3C, 0xD83D, 0xDE00, 0xD83D, 0xDE00, 0xD83D, 0xDE00, 0xD83D, 0xDE00,
        0xD83D, 0xDE00, 0x61]
     \<noteq> spec_code_point_window 10
       [0x3C, 0xD83D, 0xDE00, 0xD83D, 0xDE00, 0xD83D, 0xDE00, 0xD83D, 0xDE00,
        0xD83D, 0xDE00, 0x62]
   \<and> timestampCompare
       [0x3C, 0xD83D, 0xDE00, 0xD83D, 0xDE00, 0xD83D, 0xDE00, 0xD83D, 0xDE00,
        0xD83D, 0xDE00, 0xD83D, 0xDE00, 0xD83D, 0xDE00, 0xD83D, 0xDE00, 0xD83D, 0xDE00,
        0xD83D, 0xDE00, 0xD83D, 0xDE00, 0xD83D, 0xDE00, 0xD83D, 0xDE00, 0xD83D, 0xDE00,
        0xD83D, 0xDE00, 0x61]
       [0x3C, 0xD83D, 0xDE00, 0xD83D, 0xDE00, 0xD83D, 0xDE00, 0xD83D, 0xDE00,
        0xD83D, 0xDE00, 0xD83D, 0xDE00, 0xD83D, 0xDE00, 0xD83D, 0xDE00, 0xD83D, 0xDE00,
        0xD83D, 0xDE00, 0xD83D, 0xDE00, 0xD83D, 0xDE00, 0xD83D, 0xDE00, 0xD83D, 0xDE00,
        0xD83D, 0xDE00, 0x62]
     = 0
   \<and> spec_code_point_window 30
       [0x3C, 0xD83D, 0xDE00, 0xD83D, 0xDE00, 0xD83D, 0xDE00, 0xD83D, 0xDE00,
        0xD83D, 0xDE00, 0xD83D, 0xDE00, 0xD83D, 0xDE00, 0xD83D, 0xDE00, 0xD83D, 0xDE00,
        0xD83D, 0xDE00, 0xD83D, 0xDE00, 0xD83D, 0xDE00, 0xD83D, 0xDE00, 0xD83D, 0xDE00,
        0xD83D, 0xDE00, 0x61]
     \<noteq> spec_code_point_window 30
       [0x3C, 0xD83D, 0xDE00, 0xD83D, 0xDE00, 0xD83D, 0xDE00, 0xD83D, 0xDE00,
        0xD83D, 0xDE00, 0xD83D, 0xDE00, 0xD83D, 0xDE00, 0xD83D, 0xDE00, 0xD83D, 0xDE00,
        0xD83D, 0xDE00, 0xD83D, 0xDE00, 0xD83D, 0xDE00, 0xD83D, 0xDE00, 0xD83D, 0xDE00,
        0xD83D, 0xDE00, 0x62]"
  by (simp add: dateCompare_def timestampCompare_def substring_def spec_code_point_window_def
      is_high_surrogate_def is_low_surrogate_def)

text \<open>
  Claim C9.  Whenever the date comparator returns a result other than EQUAL, the
  timestamp comparator returns the same result: the date window is the start of the
  timestamp window cut at the same place of the same line.
\<close>

theorem dateCompare_refined_by_timestampCompare:
  "dateCompare a b \<noteq> 0 \<Longrightarrow> timestampCompare a b = dateCompare a b"
proof -
  assume d: "dateCompare a b \<noteq> 0"
  have ab: "0x3C \<in> set a \<and> 0x3C \<in> set b"
  proof (rule ccontr)
    assume "\<not> ?thesis"
    then have "indexOf a 0x3C < 0 \<or> indexOf b 0x3C < 0"
      by (auto simp: indexOf_absent)
    then have "dateCompare a b = 0"
      by (auto simp: dateCompare_def Let_def)
    with d show False by simp
  qed
  define ra where "ra = dropWhile (\<lambda>c. c \<noteq> 0x3C) a"
  define rb where "rb = dropWhile (\<lambda>c. c \<noteq> 0x3C) b"
  have ia: "\<not> indexOf a 0x3C < 0" and ib: "\<not> indexOf b 0x3C < 0"
    using ab by (simp_all add: indexOf_absent)
  have dc: "dateCompare a b = (if take 10 ra = take 10 rb then 0
      else if string_less (take 10 ra) (take 10 rb) then -1 else 1)"
    using ab ia ib window_at_first_lt [of a 10] window_at_first_lt [of b 10]
    by (simp add: dateCompare_def Let_def ra_def rb_def)
  have tc: "timestampCompare a b = (if take 30 ra = take 30 rb then 0
      else if string_less (take 30 ra) (take 30 rb) then -1 else 1)"
    using ab ia ib window_at_first_lt [of a 30] window_at_first_lt [of b 30]
    by (simp add: timestampCompare_def Let_def ra_def rb_def)
  from d dc have ne: "take 10 ra \<noteq> take 10 rb"
    by auto
  show ?thesis
  proof (cases "string_less (take 10 ra) (take 10 rb)")
    case True
    then have "string_less (take 30 ra) (take 30 rb)"
      by (rule string_less_take_mono [rotated]) simp
    with True dc tc ne string_less_irrefl [of "take 30 rb"] show ?thesis
      by auto
  next
    case False
    with ne have "string_less (take 10 rb) (take 10 ra)"
      using string_less_total by blast
    then have gt: "string_less (take 30 rb) (take 30 ra)"
      by (rule string_less_take_mono [rotated]) simp
    then have "\<not> string_less (take 30 ra) (take 30 rb)" "take 30 ra \<noteq> take 30 rb"
      using string_less_asym string_less_irrefl by auto
    with False dc tc ne show ?thesis
      by auto
  qed
qed

theorem dateCompare_refined_by_timestampCompare_witness:
  "dateCompare (lit ''a <2024-02-01> late'') (lit ''<2024-01-15> early'') \<noteq> 0
   \<and> timestampCompare (lit ''a <2024-02-01> late'') (lit ''<2024-01-15> early'') = 1"
proof -
  have h: "dateCompare (lit ''a <2024-02-01> late'') (lit ''<2024-01-15> early'') = 1"
    by (simp add: dateCompare_def lit_def substring_def)
  then have "dateCompare (lit ''a <2024-02-01> late'') (lit ''<2024-01-15> early'') \<noteq> 0"
    by simp
  from dateCompare_refined_by_timestampCompare [OF this] h show ?thesis
    by simp
qed

section \<open>The shuffle\<close>

lemma shuffle_loop_mset:
  assumes "\<forall>i. draw i \<le> i"
  shows "n < length lines \<Longrightarrow> mset (shuffle_loop draw n lines) = mset lines"
proof (induction n arbitrary: lines)
  case 0
  then show ?case by simp
next
  case (Suc n)
  have "draw (Suc n) \<le> Suc n"
    using assms by blast
  with Suc.prems have lt: "draw (Suc n) < length lines"
    by simp
  let ?l = "lines[Suc n := lines ! draw (Suc n), draw (Suc n) := lines ! Suc n]"
  have "mset ?l = mset lines"
    using Suc.prems lt by (simp add: mset_swap)
  moreover have "n < length ?l"
    using Suc.prems by simp
  ultimately show ?case
    using Suc.IH [of ?l] by (simp add: Let_def)
qed

lemma shuffle_loop_fold:
  "shuffle_loop draw n lines =
     fold (\<lambda>i xs. xs[i := xs ! draw i, draw i := xs ! i]) (rev [1..<Suc n]) lines"
  by (induction n arbitrary: lines) (simp_all add: Let_def)

text \<open>
  Claim C7.  The shuffle runs the index \<open>i\<close> from the last index down to 1 and swaps
  the element at \<open>i\<close> with the element at the index drawn for \<open>i\<close>.  So, for every
  input and every choice of the drawn indices with the one for \<open>i\<close> in \<open>[0, i]\<close>,
  the result holds the same lines as the input, each as often, and has the same length.
\<close>

theorem shuffleSorter_permutes:
  assumes "\<forall>i. draw i \<le> i"
  shows "mset (shuffleSorter draw S) = mset S
    \<and> length (shuffleSorter draw S) = length S
    \<and> shuffleSorter draw S =
        fold (\<lambda>i xs. xs[i := xs ! draw i, draw i := xs ! i]) (rev [1..<length S]) S"
proof -
  have m: "mset (shuffleSorter draw S) = mset S"
  proof (cases S)
    case Nil
    then show ?thesis by (simp add: shuffleSorter_def)
  next
    case (Cons x xs)
    then show ?thesis
      using shuffle_loop_mset [OF assms, of "length S - 1" S] by (simp add: shuffleSorter_def)
  qed
  then have l: "length (shuffleSorter draw S) = length S"
    by (rule mset_eq_length)
  have f: "shuffleSorter draw S =
        fold (\<lambda>i xs. xs[i := xs ! draw i, draw i := xs ! i]) (rev [1..<length S]) S"
    by (cases S) (simp_all add: shuffleSorter_def shuffle_loop_fold del: upt_Suc)
  from m l f show ?thesis
    by blast
qed

theorem shuffleSorter_permutes_witness:
  "shuffleSorter (\<lambda>i. i - 1) [lit ''a'', lit ''b'', lit ''c'', lit ''d'']
     = [lit ''d'', lit ''a'', lit ''b'', lit ''c'']
   \<and> mset [lit ''d'', lit ''a'', lit ''b'', lit ''c'']
     = mset [lit ''a'', lit ''b'', lit ''c'', lit ''d'']"
proof -
  have h: "\<forall>i::nat. i - 1 \<le> i"
    by simp
  have e: "shuffleSorter (\<lambda>i. i - 1) [lit ''a'', lit ''b'', lit ''c'', lit ''d'']
     = [lit ''d'', lit ''a'', lit ''b'', lit ''c'']"
    by (simp add: shuffleSorter_def eval_nat_numeral Let_def)
  have "mset (shuffleSorter (\<lambda>i. i - 1) [lit ''a'', lit ''b'', lit ''c'', lit ''d''])
      = mset [lit ''a'', lit ''b'', lit ''c'', lit ''d'']"
    using shuffleSorter_permutes [OF h, of "[lit ''a'', lit ''b'', lit ''c'', lit ''d'']"]
    by (rule conjunct1)
  with e show ?thesis by simp
qed

section \<open>Sorting and removing duplicates\<close>

lemma defaultCompare_le: "defaultCompare x y \<le> 0 \<longleftrightarrow> \<not> string_less y x"
  using string_less_asym [of x y] by (auto simp: defaultCompare_def)

lemma not_less_trans:
  "\<not> string_less b a \<Longrightarrow> \<not> string_less c b \<Longrightarrow> \<not> string_less c a"
  using string_less_total [of a b] string_less_total [of b c] string_less_trans
    string_less_asym by metis

lemma set_insert_sorted: "set (insert_sorted comparefn x ys) = insert x (set ys)"
  by (induction ys) auto

lemma sorted_insert_sorted:
  "sorted_wrt (\<lambda>a b. \<not> string_less b a) ys
   \<Longrightarrow> sorted_wrt (\<lambda>a b. \<not> string_less b a) (insert_sorted defaultCompare x ys)"
proof (induction ys)
  case Nil
  then show ?case by simp
next
  case (Cons y ys)
  show ?case
  proof (cases "defaultCompare x y \<le> 0")
    case True
    then have "\<not> string_less y x" by (simp add: defaultCompare_le)
    with Cons.prems True show ?thesis
      using not_less_trans by auto
  next
    case False
    then have "string_less y x" by (simp add: defaultCompare_le)
    then have "\<not> string_less x y" by (rule string_less_asym)
    with Cons False show ?thesis
      by (auto simp: set_insert_sorted)
  qed
qed

lemma set_Array_sort: "set (Array_sort comparefn xs) = set xs"
  by (induction xs) (simp_all add: Array_sort_def set_insert_sorted)

lemma sorted_Array_sort:
  "sorted_wrt (\<lambda>a b. \<not> string_less b a) (Array_sort defaultCompare xs)"
  by (induction xs) (simp_all add: Array_sort_def sorted_insert_sorted)

lemma mset_insert_sorted: "mset (insert_sorted comparefn x ys) = add_mset x (mset ys)"
  by (induction ys) auto

lemma mset_Array_sort: "mset (Array_sort comparefn xs) = mset xs"
  by (induction xs) (simp_all add: Array_sort_def mset_insert_sorted)

lemma set_fold_Set_add: "set (fold (\<lambda>x s. Set_add s x) xs acc) = set acc \<union> set xs"
  by (induction xs arbitrary: acc) (auto simp: Set_add_def)

lemma sorted_fold_Set_add:
  "sorted_wrt (\<lambda>a b. \<not> string_less b a) (acc @ xs) \<Longrightarrow> sorted_wrt string_less acc
   \<Longrightarrow> sorted_wrt string_less (fold (\<lambda>x s. Set_add s x) xs acc)"
proof (induction xs arbitrary: acc)
  case Nil
  then show ?case by simp
next
  case (Cons x xs)
  show ?case
  proof (cases "x \<in> set acc")
    case True
    from Cons.prems(1) have "sorted_wrt (\<lambda>a b. \<not> string_less b a) (acc @ xs)"
      by (auto simp: sorted_wrt_append)
    with Cons.IH [of acc] Cons.prems(2) True show ?thesis
      by (simp add: Set_add_def)
  next
    case False
    have "\<forall>a\<in>set acc. string_less a x"
    proof
      fix a assume a: "a \<in> set acc"
      with Cons.prems(1) have "\<not> string_less x a"
        by (auto simp: sorted_wrt_append)
      moreover from a False have "a \<noteq> x" by auto
      ultimately show "string_less a x"
        using string_less_total by blast
    qed
    with Cons.prems(2) have "sorted_wrt string_less (acc @ [x])"
      by (simp add: sorted_wrt_append)
    with Cons.IH [of "acc @ [x]"] Cons.prems(1) False show ?thesis
      by (simp add: Set_add_def)
  qed
qed

text \<open>
  Claim C8.  The sequence of the ascending-unique command sorts first and removes the
  duplicates of the sorted array after.  The sort returns the same lines in ascending
  order; the removal keeps one copy of every line and loses none, so the result is in
  strictly ascending order.  On \<open>b\<close>, \<open>a\<close>, \<open>c\<close>, \<open>a\<close> the result is \<open>a\<close>,
  \<open>b\<close>, \<open>c\<close>.
\<close>

theorem sortUnique_sorts_then_deduplicates:
  "fold (\<lambda>transform currentLines. transform currentLines) transformerSequences_sortUnique lines
     = removeDuplicates (makeSorter None lines)
   \<and> mset (makeSorter None lines) = mset lines
   \<and> sorted_wrt (\<lambda>a b. \<not> string_less b a) (makeSorter None lines)
   \<and> set (removeDuplicates (makeSorter None lines)) = set lines
   \<and> sorted_wrt string_less (removeDuplicates (makeSorter None lines))
   \<and> fold (\<lambda>transform currentLines. transform currentLines) transformerSequences_sortUnique
        [lit ''b'', lit ''a'', lit ''c'', lit ''a''] = [lit ''a'', lit ''b'', lit ''c'']"
proof -
  have "fold (\<lambda>transform currentLines. transform currentLines) transformerSequences_sortUnique
        [lit ''b'', lit ''a'', lit ''c'', lit ''a''] = [lit ''a'', lit ''b'', lit ''c'']"
    by (simp add: transformerSequences_sortUnique_def makeSorter_def removeDuplicates_def
        Array_sort_def defaultCompare_def Set_add_def lit_def)
  moreover have "sorted_wrt string_less (removeDuplicates (makeSorter None lines))"
    using sorted_fold_Set_add [of "[]" "Array_sort defaultCompare lines"] sorted_Array_sort [of lines]
    by (simp add: removeDuplicates_def makeSorter_def)
  ultimately show ?thesis
    by (simp add: transformerSequences_sortUnique_def makeSorter_def removeDuplicates_def
        set_fold_Set_add set_Array_sort mset_Array_sort sorted_Array_sort)
qed

theorem sortUnique_sorts_then_deduplicates_witness:
  "removeDuplicates (makeSorter None [lit ''pear'', lit ''fig'', lit ''pear'', lit ''Fig''])
     = [lit ''Fig'', lit ''fig'', lit ''pear'']
   \<and> set [lit ''Fig'', lit ''fig'', lit ''pear'']
     = set [lit ''pear'', lit ''fig'', lit ''pear'', lit ''Fig'']"
proof -
  have e: "removeDuplicates (makeSorter None [lit ''pear'', lit ''fig'', lit ''pear'', lit ''Fig''])
     = [lit ''Fig'', lit ''fig'', lit ''pear'']"
    by (simp add: makeSorter_def removeDuplicates_def
        Array_sort_def defaultCompare_def Set_add_def lit_def)
  have "set (removeDuplicates (makeSorter None [lit ''pear'', lit ''fig'', lit ''pear'', lit ''Fig'']))
      = set [lit ''pear'', lit ''fig'', lit ''pear'', lit ''Fig'']"
    using sortUnique_sorts_then_deduplicates [of "[lit ''pear'', lit ''fig'', lit ''pear'', lit ''Fig'']"]
    by blast
  with e show ?thesis by simp
qed

section \<open>Writing the result back\<close>

lemma read_lines_take:
  "i \<le> Suc endLine \<Longrightarrow> endLine < length doc
   \<Longrightarrow> read_lines doc i endLine lines = Inr (lines @ take (Suc endLine - i) (drop i doc))"
proof (induction doc i endLine lines rule: read_lines.induct)
  case (1 doc i endLine lines)
  show ?case
  proof (cases "i \<le> endLine")
    case True
    with "1.prems" have lt: "i < length doc" by simp
    from True have "Suc endLine - i = Suc (endLine - i)" by simp
    moreover have "drop i doc = doc ! i # drop (Suc i) doc"
      using lt by (simp add: Cons_nth_drop_Suc)
    ultimately have "take (Suc endLine - i) (drop i doc)
        = doc ! i # take (Suc endLine - Suc i) (drop (Suc i) doc)"
      by simp
    with "1.IH" [of "doc ! i"] True lt "1.prems" show ?thesis
      by (subst read_lines.simps) (simp add: lineAt_def)
  next
    case False
    with "1.prems" have "i = Suc endLine" by simp
    then show ?thesis by (subst read_lines.simps) simp
  qed
qed

lemma split_lines_not_Nil: "split_lines s \<noteq> []"
  by (induction s) (auto split: list.splits)

lemma split_lines_append:
  "split_lines (x @ 0x0A # y) = split_lines x @ split_lines y"
proof (induction x)
  case Nil
  then show ?case by simp
next
  case (Cons c cs)
  then show ?case
    using split_lines_not_Nil [of cs] by (auto split: list.splits)
qed

lemma split_lines_line: "0x0A \<notin> set t \<Longrightarrow> split_lines t = [t]"
  by (induction t) auto

lemma Array_join_Cons:
  "ys \<noteq> [] \<Longrightarrow> Array_join (x # ys) = x @ 0x0A # Array_join ys"
  by (cases ys) auto

lemma split_lines_Array_join:
  "ls \<noteq> [] \<Longrightarrow> \<forall>t\<in>set ls. 0x0A \<notin> set t \<Longrightarrow> split_lines (Array_join ls) = ls"
proof (induction ls rule: Array_join.induct)
  case 1
  then show ?case by simp
next
  case (2 x)
  then show ?case by (simp add: split_lines_line)
next
  case (3 x y ys)
  then show ?case by (simp add: split_lines_append split_lines_line)
qed

lemma Array_join_append:
  "ys \<noteq> [] \<Longrightarrow> Array_join (xs @ ys) = concat (map (\<lambda>t. t @ [0x0A]) xs) @ Array_join ys"
proof (induction xs)
  case Nil
  then show ?case by simp
next
  case (Cons x xs)
  then show ?case by (simp add: Array_join_Cons)
qed

lemma length_terminated:
  "length (concat (map (\<lambda>t. t @ [0x0A :: code_unit]) xs)) = sum_list (map (\<lambda>t. length t + 1) xs)"
  by (induction xs) auto

lemma split_lines_terminated:
  "\<forall>t\<in>set xs. 0x0A \<notin> set t
   \<Longrightarrow> split_lines (concat (map (\<lambda>t. t @ [0x0A]) xs) @ r) = xs @ split_lines r"
  by (induction xs) (simp_all add: split_lines_append split_lines_line)

lemma editBuilder_replace_lines:
  assumes nl: "\<forall>t\<in>set doc. 0x0A \<notin> set t"
    and span: "startLine \<le> endLine" "endLine < length doc"
  shows "editBuilder_replace doc startLine 0 endLine (length (doc ! endLine)) text
    = take startLine doc @ split_lines text @ drop (Suc endLine) doc"
proof -
  let ?pre = "take startLine doc"
  let ?ended = "\<lambda>xs. concat (map (\<lambda>t. t @ [0x0A :: code_unit]) xs)"
  have d1: "doc = ?pre @ drop startLine doc" by simp
  have ne1: "drop startLine doc \<noteq> []" using span by simp
  have t1: "getText doc = ?ended ?pre @ Array_join (drop startLine doc)"
    unfolding getText_def using Array_join_append [OF ne1, of ?pre] by simp
  have a: "offsetAt doc startLine 0 = length (?ended ?pre)"
    by (simp add: offsetAt_def length_terminated)
  have d2: "drop endLine doc = doc ! endLine # drop (Suc endLine) doc"
    using span by (simp add: Cons_nth_drop_Suc)
  have t2: "getText doc = ?ended (take endLine doc) @ doc ! endLine @
              (if drop (Suc endLine) doc = [] then [] else 0x0A # Array_join (drop (Suc endLine) doc))"
  proof -
    have "Array_join doc = Array_join (take endLine doc @ drop endLine doc)"
      by simp
    also have "\<dots> = ?ended (take endLine doc) @ Array_join (drop endLine doc)"
      by (rule Array_join_append) (use span in simp)
    also have "Array_join (drop endLine doc) = doc ! endLine @
        (if drop (Suc endLine) doc = [] then [] else 0x0A # Array_join (drop (Suc endLine) doc))"
      by (subst d2) (simp add: Array_join_Cons)
    finally show ?thesis
      by (simp add: getText_def)
  qed
  have b: "offsetAt doc endLine (length (doc ! endLine))
      = length (?ended (take endLine doc) @ doc ! endLine)"
    by (simp add: offsetAt_def length_terminated)
  have le: "offsetAt doc startLine 0 \<le> offsetAt doc endLine (length (doc ! endLine))"
  proof -
    have "take endLine doc = take startLine doc @ take (endLine - startLine) (drop startLine doc)"
      using span(1) by (metis le_add_diff_inverse take_add)
    then have "sum_list (map (\<lambda>t. length t + 1) (take startLine doc))
        \<le> sum_list (map (\<lambda>t. length t + 1) (take endLine doc))"
      by simp
    then show ?thesis by (simp add: offsetAt_def)
  qed
  have tk: "take (offsetAt doc startLine 0) (getText doc) = ?ended ?pre"
    by (subst t1) (simp add: a)
  have dr: "drop (offsetAt doc endLine (length (doc ! endLine))) (getText doc)
      = (if drop (Suc endLine) doc = [] then [] else 0x0A # Array_join (drop (Suc endLine) doc))"
    by (subst t2) (simp only: b append_assoc [symmetric] drop_append, simp)
  have npre: "\<forall>t\<in>set ?pre. 0x0A \<notin> set t"
    using nl by (meson in_set_takeD)
  have npost: "\<forall>t\<in>set (drop (Suc endLine) doc). 0x0A \<notin> set t"
    using nl by (meson in_set_dropD)
  have "editBuilder_replace doc startLine 0 endLine (length (doc ! endLine)) text
      = split_lines (?ended ?pre @ text @
          (if drop (Suc endLine) doc = [] then [] else 0x0A # Array_join (drop (Suc endLine) doc)))"
    using le by (simp add: editBuilder_replace_def Let_def min_def max_def tk dr)
  also have "\<dots> = ?pre @ split_lines (text @
          (if drop (Suc endLine) doc = [] then [] else 0x0A # Array_join (drop (Suc endLine) doc)))"
    by (rule split_lines_terminated [OF npre])
  also have "split_lines (text @
          (if drop (Suc endLine) doc = [] then [] else 0x0A # Array_join (drop (Suc endLine) doc)))
      = split_lines text @ drop (Suc endLine) doc"
  proof (cases "drop (Suc endLine) doc = []")
    case True
    then show ?thesis by simp
  next
    case False
    then show ?thesis
      using split_lines_Array_join [OF False npost] by (simp add: split_lines_append)
  qed
  finally show ?thesis .
qed

text \<open>
  Claim C10.  On a span \<open>[startLine, endLine]\<close> of the document, \<open>sortLines\<close>
  writes once: the document after the edit is the lines before \<open>startLine\<close>, then the
  lines of the text written, which is the transformed lines joined by the line feed,
  then the lines after \<open>endLine\<close>.  Every line with an index below \<open>startLine\<close>
  is unchanged at its index, and every line with an index above \<open>endLine\<close> is
  unchanged too, at the index moved by the change of the number of lines.
\<close>

theorem sortLines_frame:
  assumes "\<forall>t\<in>set doc. 0x0A \<notin> set t"
    and "startLine \<le> endLine" and "endLine < length doc"
    and "selected = take (Suc endLine - startLine) (drop startLine doc)"
    and "lines = fold (\<lambda>transform currentLines. transform currentLines) transformers
                   (if filterBlankLines cfg then removeBlanks selected else selected)"
    and "doc' = take startLine doc @ split_lines (Array_join lines) @ drop (Suc endLine) doc"
  shows "sortLines cfg doc startLine endLine transformers = Inr doc'
    \<and> (\<forall>i. i < startLine \<longrightarrow> doc' ! i = doc ! i)
    \<and> (\<forall>j. endLine < j \<and> j < length doc \<longrightarrow> doc' ! (j + length doc' - length doc) = doc ! j)
    \<and> (lines \<noteq> [] \<and> (\<forall>t\<in>set lines. 0x0A \<notin> set t)
        \<longrightarrow> doc' = take startLine doc @ lines @ drop (Suc endLine) doc)"
proof -
  have r: "read_lines doc startLine endLine [] = Inr selected"
    using read_lines_take [of startLine endLine doc "[]"] assms(2,3,4) by simp
  have "sortLines cfg doc startLine endLine transformers
      = Inr (editBuilder_replace doc startLine 0 endLine (length (doc ! endLine)) (Array_join lines))"
    using assms(3,5) by (simp add: sortLines_def r lineAt_def Let_def)
  then have 1: "sortLines cfg doc startLine endLine transformers = Inr doc'"
    using editBuilder_replace_lines [OF assms(1,2,3)] assms(6) by simp
  have 2: "\<forall>i. i < startLine \<longrightarrow> doc' ! i = doc ! i"
    using assms(2,3,6) by (simp add: nth_append)
  have 3: "\<forall>j. endLine < j \<and> j < length doc \<longrightarrow> doc' ! (j + length doc' - length doc) = doc ! j"
  proof (intro allI impI)
    fix j assume j: "endLine < j \<and> j < length doc"
    let ?mid = "split_lines (Array_join lines)"
    have len: "length doc' = startLine + length ?mid + (length doc - Suc endLine)"
      using assms(2,3,6) by simp
    then have idx: "j + length doc' - length doc = startLine + length ?mid + (j - Suc endLine)"
      using j assms(2,3) by simp
    have "doc' ! (startLine + length ?mid + (j - Suc endLine)) = drop (Suc endLine) doc ! (j - Suc endLine)"
      using assms(2,3,6) by (simp add: nth_append)
    also have "\<dots> = doc ! j"
      using j by simp
    finally show "doc' ! (j + length doc' - length doc) = doc ! j"
      by (simp only: idx)
  qed
  have 4: "lines \<noteq> [] \<and> (\<forall>t\<in>set lines. 0x0A \<notin> set t)
        \<longrightarrow> doc' = take startLine doc @ lines @ drop (Suc endLine) doc"
    using assms(6) by (simp add: split_lines_Array_join)
  from 1 2 3 4 show ?thesis by blast
qed

theorem sortLines_frame_witness:
  "sortLines \<lparr>sortEntireFile = False, filterBlankLines = False\<rparr>
     [lit ''head'', lit ''b'', lit ''a'', lit ''a'', lit ''tail''] 1 3
     transformerSequences_sortUnique
   = Inr [lit ''head'', lit ''a'', lit ''b'', lit ''tail'']"
proof -
  have a: "\<forall>t\<in>set [lit ''head'', lit ''b'', lit ''a'', lit ''a'', lit ''tail'']. 0x0A \<notin> set t"
    by (simp add: lit_def)
  have s: "[lit ''b'', lit ''a'', lit ''a'']
      = take (Suc 3 - 1) (drop 1 [lit ''head'', lit ''b'', lit ''a'', lit ''a'', lit ''tail''])"
    by simp
  have l: "[lit ''a'', lit ''b'']
      = fold (\<lambda>transform currentLines. transform currentLines) transformerSequences_sortUnique
          (if filterBlankLines \<lparr>sortEntireFile = False, filterBlankLines = False\<rparr>
           then removeBlanks [lit ''b'', lit ''a'', lit ''a''] else [lit ''b'', lit ''a'', lit ''a''])"
    by (simp add: transformerSequences_sortUnique_def makeSorter_def removeDuplicates_def
        Array_sort_def defaultCompare_def Set_add_def lit_def)
  have d: "[lit ''head'', lit ''a'', lit ''b'', lit ''tail'']
      = take 1 [lit ''head'', lit ''b'', lit ''a'', lit ''a'', lit ''tail'']
        @ split_lines (Array_join [lit ''a'', lit ''b''])
        @ drop (Suc 3) [lit ''head'', lit ''b'', lit ''a'', lit ''a'', lit ''tail'']"
    by (simp add: lit_def)
  show ?thesis
    using sortLines_frame [OF a _ _ s l d] by simp
qed

section \<open>The empty selection\<close>

text \<open>
  Claim C2, as the code runs.  With an empty selection the message for the empty
  selection is shown in every case.  With \<open>sortEntireFile\<close> set the whole document,
  lines \<open>0\<close> to \<open>lineCount - 1\<close>, is then sorted all the same; without it the
  message for a single line is shown as well and nothing is written.
\<close>

theorem sortActiveSelection_empty_selection:
  "isEmpty (selection ed) \<Longrightarrow>
   sortActiveSelection cfg (Some ed) transformers =
     (if sortEntireFile cfg
      then ([msg_no_selection],
            Some (sortLines cfg (document ed) 0 (length (document ed) - 1) transformers))
      else ([msg_no_selection, msg_single_line], None))"
  by (simp add: sortActiveSelection_def isEmpty_def isSingleLine_def)

theorem sortActiveSelection_empty_selection_witness:
  "sortActiveSelection \<lparr>sortEntireFile = True, filterBlankLines = False\<rparr>
     (Some \<lparr>document = [lit ''b'', lit ''a''],
            selection = \<lparr>start_line = 0, start_character = 0, end_line = 0, end_character = 0\<rparr>\<rparr>)
     transformerSequences_sortNormal
   = ([msg_no_selection], Some (Inr [lit ''a'', lit ''b'']))"
proof -
  have e: "isEmpty (selection \<lparr>document = [lit ''b'', lit ''a''],
            selection = \<lparr>start_line = 0, start_character = 0, end_line = 0, end_character = 0\<rparr>\<rparr>)"
    by (simp add: isEmpty_def)
  have s: "sortLines \<lparr>sortEntireFile = True, filterBlankLines = False\<rparr> [lit ''b'', lit ''a''] 0 1
      transformerSequences_sortNormal = Inr [lit ''a'', lit ''b'']"
    by (simp add: sortLines_def read_lines.simps lineAt_def transformerSequences_sortNormal_def
        makeSorter_def Array_sort_def defaultCompare_def editBuilder_replace_def offsetAt_def
        getText_def lit_def)
  show ?thesis
    using sortActiveSelection_empty_selection [OF e, of "\<lparr>sortEntireFile = True, filterBlankLines = False\<rparr>"
        transformerSequences_sortNormal] s
    by simp
qed

end
